theory Spec2Isabelle
  imports Main "HOL-Library.Sublist" "HOL-Library.FSet"
begin

section \<open>Text\<close>

text \<open>
  A Python \<open>str\<close> is a sequence of Unicode code points and \<open>len\<close> counts code points, so
  a string is modelled as a list of code points (natural numbers). The book emoji that
  prefixes every display entry lies outside the 8-bit range of \<^typ>\<open>char\<close>; with code
  points it is one element, as it is for \<open>len\<close> and for slicing in the source.
  \<open>ascii\<close> embeds an ASCII literal.
\<close>

type_synonym pystr = "nat list"

definition ascii :: "string \<Rightarrow> pystr" where
  "ascii s = map of_char s"

text \<open>The code points for which \<open>str.isspace\<close> holds; \<open>str.strip()\<close> removes them at both ends.\<close>

definition isspace :: "nat \<Rightarrow> bool" where
  "isspace c =
     ((9 \<le> c \<and> c \<le> 13) \<or> (28 \<le> c \<and> c \<le> 32) \<or> c = 133 \<or> c = 160 \<or> c = 5760
      \<or> (8192 \<le> c \<and> c \<le> 8202) \<or> c = 8232 \<or> c = 8233 \<or> c = 8239 \<or> c = 8287
      \<or> c = 12288)"

definition strip :: "pystr \<Rightarrow> pystr" where
  "strip s = rev (dropWhile isspace (rev (dropWhile isspace s)))"

text \<open>Python's \<open>sub in s\<close> on strings: \<open>sub\<close> occurs in \<open>s\<close> as a contiguous run.\<close>

fun contains :: "pystr \<Rightarrow> pystr \<Rightarrow> bool" where
  "contains sub [] = (sub = [])"
| "contains sub (c # cs) = (prefix sub (c # cs) \<or> contains sub cs)"

text \<open>\<open>str(n)\<close> for a non-negative integer: its decimal digits.\<close>

function str_nat :: "nat \<Rightarrow> pystr" where
  "str_nat n = (if n < 10 then [48 + n] else str_nat (n div 10) @ [48 + n mod 10])"
  by pat_completeness auto
termination
  by (relation "measure id") auto

declare str_nat.simps [simp del]

text \<open>Python's slice \<open>xs[i:j]\<close> for \<open>0 \<le> i\<close>, \<open>0 \<le> j\<close>: it never raises, it clips.\<close>

definition slice :: "'a list \<Rightarrow> nat \<Rightarrow> nat \<Rightarrow> 'a list" where
  "slice xs i j = take (j - i) (drop i xs)"

section \<open>The parsed page\<close>

text \<open>
  \<open>BeautifulSoup(response.text, "html.parser")\<close> yields a tree of elements and text
  strings. An element carries its tag name and its \<open>class\<close> attribute, which the library
  keeps as the list of its whitespace-separated tokens (\<open>None\<close> when the attribute is
  absent). Only what \<open>fetch_releases_from_page\<close> reads is kept.
\<close>

datatype node =
    Text pystr
  | Elem (tag: pystr) (cls: "pystr list option") (children: "node list")

text \<open>\<open>Tag.descendants\<close>: every node below an element, in document order.\<close>

fun descendants :: "node \<Rightarrow> node list" where
  "descendants (Text s) = []"
| "descendants (Elem t c ch) = concat (map (\<lambda>n. n # descendants n) ch)"

text \<open>
  A \<open>class_\<close> filter given as a function is tried by the library on every token of the
  attribute and then on the tokens joined by a blank; on an element without the
  attribute it is called on \<open>None\<close>.
\<close>

fun join_blank :: "pystr list \<Rightarrow> pystr" where
  "join_blank [] = []"
| "join_blank [t] = t"
| "join_blank (t # ts) = t @ [32] @ join_blank ts"

definition class_matches :: "(pystr option \<Rightarrow> bool) \<Rightarrow> pystr list option \<Rightarrow> bool" where
  "class_matches f c =
     (case c of
        None \<Rightarrow> f None
      | Some toks \<Rightarrow> list_ex (\<lambda>t. f (Some t)) toks \<or> f (Some (join_blank toks)))"

definition find_all :: "pystr \<Rightarrow> (pystr option \<Rightarrow> bool) \<Rightarrow> node \<Rightarrow> node list" where
  "find_all name f n =
     filter (\<lambda>d. case d of Text s \<Rightarrow> False
                 | Elem t c ch \<Rightarrow> t = name \<and> class_matches f c)
       (descendants n)"

text \<open>\<open>tag.find(name)\<close>: the first descendant element of that name, or \<open>None\<close>.\<close>

definition find_tag :: "pystr \<Rightarrow> node \<Rightarrow> node option" where
  "find_tag name n =
     (case filter (\<lambda>d. case d of Text s \<Rightarrow> False | Elem t c ch \<Rightarrow> t = name) (descendants n) of
        [] \<Rightarrow> None
      | d # ds \<Rightarrow> Some d)"

text \<open>
  \<open>tag.get_text(strip=True)\<close>: every text string below the element is stripped, the
  ones left empty are skipped, and the rest are concatenated.
\<close>

fun strings :: "node \<Rightarrow> pystr list" where
  "strings (Text s) = [s]"
| "strings (Elem t c ch) = concat (map strings ch)"

definition get_text :: "node \<Rightarrow> pystr" where
  "get_text n = concat (filter (\<lambda>s. s \<noteq> []) (map strip (strings n)))"

section \<open>Release records\<close>

record release =
  title :: pystr
  chapter' :: pystr
  group :: pystr
  key :: pystr

text \<open>\<open>lambda x: x and "new-release-item" in str(x)\<close>\<close>

definition is_release_item :: "pystr option \<Rightarrow> bool" where
  "is_release_item x =
     (case x of None \<Rightarrow> False
      | Some s \<Rightarrow> s \<noteq> [] \<and> contains (ascii ''new-release-item'') s)"

text \<open>\<open>lambda x: x and ("col-6" in str(x) or "col-2" in str(x) or "col-4" in str(x))\<close>\<close>

definition is_column :: "pystr option \<Rightarrow> bool" where
  "is_column x =
     (case x of None \<Rightarrow> False
      | Some s \<Rightarrow> s \<noteq> [] \<and> (contains (ascii ''col-6'') s \<or> contains (ascii ''col-2'') s
                        \<or> contains (ascii ''col-4'') s))"

definition release_divs :: "node \<Rightarrow> node list" where
  "release_divs soup = find_all (ascii ''div'') is_release_item soup"

definition columns :: "node \<Rightarrow> node list" where
  "columns release_div = find_all (ascii ''div'') is_column release_div"

text \<open>The three texts read from a row that has at least three columns.\<close>

definition row_title :: "node \<Rightarrow> pystr" where
  "row_title release_div =
     (case find_tag (ascii ''span'') (columns release_div ! 0) of
        Some title_elem \<Rightarrow> get_text title_elem
      | None \<Rightarrow> get_text (columns release_div ! 0))"

definition row_release :: "node \<Rightarrow> pystr" where
  "row_release release_div = get_text (columns release_div ! 1)"

definition row_group :: "node \<Rightarrow> pystr" where
  "row_group release_div = get_text (columns release_div ! 2)"

text \<open>The f-string \<open>f"{title}|{release}|{group}"\<close>.\<close>

definition make_key :: "pystr \<Rightarrow> pystr \<Rightarrow> pystr \<Rightarrow> pystr" where
  "make_key t r g = t @ ascii ''|'' @ r @ ascii ''|'' @ g"

text \<open>
  The body of the loop over the rows: \<open>Some\<close> the record appended to \<open>releases\<close>,
  \<open>None\<close> when the row adds nothing. The indices 0, 1 and 2 are read only under the
  guard \<open>len(columns) >= 3\<close>, and no operation of the body fails on an element tree, so
  the handler of the row's \<open>try\<close> has no branch here.
\<close>

definition parse_row :: "node \<Rightarrow> release option" where
  "parse_row release_div =
     (if length (columns release_div) \<ge> 3 then
        (let t = row_title release_div;
             r = row_release release_div;
             g = row_group release_div
         in if t \<noteq> [] \<and> r \<noteq> [] then
              Some \<lparr>title = t, chapter' = r,
                    group = (if g \<noteq> [] then g else ascii ''Unknown''),
                    key = make_key t r g\<rparr>
            else None)
      else None)"

fun parse_loop :: "release list \<Rightarrow> node list \<Rightarrow> release list" where
  "parse_loop releases [] = releases"
| "parse_loop releases (release_div # rest) =
     (case parse_row release_div of
        Some r \<Rightarrow> parse_loop (releases @ [r]) rest
      | None \<Rightarrow> parse_loop releases rest)"

definition parse :: "node \<Rightarrow> release list" where
  "parse soup = parse_loop [] (release_divs soup)"

section \<open>Cache and seen-set\<close>

text \<open>
  The two module-level variables and the two JSON files behind them. A file that does
  not exist is \<open>None\<close>. The seen-set file holds \<open>list(seen_releases)\<close>, whose order is
  not determined, and is read back with \<open>set(...)\<close>: its content is a set of keys.
  Writing a file is taken to succeed.
\<close>

record bot_state =
  cached_releases :: "release list"
  cache_file :: "release list option"
  seen_releases :: "pystr fset"
  seen_file :: "pystr fset option"

definition load_seen_releases :: "pystr fset option \<Rightarrow> pystr fset" where
  "load_seen_releases f = (case f of Some ks \<Rightarrow> ks | None \<Rightarrow> {||})"

definition load_cached_releases :: "release list option \<Rightarrow> release list" where
  "load_cached_releases f = (case f of Some rs \<Rightarrow> rs | None \<Rightarrow> [])"

text \<open>Module initialisation: both stores are loaded once from their files.\<close>

definition startup :: "release list option \<Rightarrow> pystr fset option \<Rightarrow> bot_state" where
  "startup cf sf =
     \<lparr>cached_releases = load_cached_releases cf, cache_file = cf,
      seen_releases = load_seen_releases sf, seen_file = sf\<rparr>"

section \<open>What the bot does to the outside\<close>

record field =
  name :: pystr
  value' :: pystr
  inline :: bool

text \<open>The embed's timestamp is the wall clock at the time of rendering and is left out.\<close>

record embed =
  embed_title :: pystr
  embed_url :: "pystr option"
  description :: pystr
  color :: "nat \<times> nat \<times> nat"
  fields' :: "field list"
  footer :: pystr

text \<open>
  The effects of one operation, in the order in which they happen. The pauses between
  two sends hand control to the scheduler and leave no trace here.
\<close>

datatype event =
    SaveCache "release list"
  | SaveSeen "pystr fset"
  | SendEmbed embed
  | SendText pystr
  | DeleteMessage

section \<open>Fetching the listing\<close>

text \<open>
  What \<open>requests.get\<close>, \<open>raise_for_status\<close> and the HTML parser deliver: an exception,
  or the tree of the page.
\<close>

datatype response = FetchError | Page node

text \<open>
  \<open>fetch_releases_from_page\<close> returns the releases, and updates the cache when the page
  gave at least one record. It runs without a suspension point.
\<close>

definition fetch_releases_from_page ::
  "response \<Rightarrow> bot_state \<Rightarrow> release list \<times> event list \<times> bot_state" where
  "fetch_releases_from_page resp s =
     (case resp of
        FetchError \<Rightarrow>
          ((if cached_releases s \<noteq> [] then cached_releases s else []), [], s)
      | Page soup \<Rightarrow>
          (let releases = parse soup in
           if releases \<noteq> [] then
             (releases, [SaveCache releases],
              s\<lparr>cached_releases := releases, cache_file := Some releases\<rparr>)
           else
             ((if cached_releases s \<noteq> [] then cached_releases s else []), [], s)))"

section \<open>The monitor\<close>

text \<open>The loop of lines 191 to 194, on the seen-set and the list \<open>new_releases\<close>.\<close>

fun detect :: "pystr fset \<Rightarrow> release list \<Rightarrow> release list \<Rightarrow> pystr fset \<times> release list" where
  "detect seen new_releases [] = (seen, new_releases)"
| "detect seen new_releases (r # rest) =
     (if key r |\<notin>| seen then detect (finsert (key r) seen) (new_releases @ [r]) rest
      else detect seen new_releases rest)"

text \<open>
  \<open>range(start, stop, step)\<close> for a positive step, which is what both call sites pass
  (5 and 10).
\<close>

function py_range :: "nat \<Rightarrow> nat \<Rightarrow> nat \<Rightarrow> nat list" where
  "py_range i n k = (if i < n \<and> 0 < k then i # py_range (i + k) n k else [])"
  by pat_completeness auto
termination
  by (relation "measure (\<lambda>(i, n, k). n - i)") auto

declare py_range.simps [simp del]

definition book :: pystr where
  "book = [128214, 32]"

definition lilac :: "nat \<times> nat \<times> nat" where
  "lilac = (204, 153, 255)"

definition monitor_field :: "release \<Rightarrow> field" where
  "monitor_field r =
     \<lparr>name = book @ title r,
      value' = ascii ''**Release:** '' @ chapter' r @ [10] @ ascii ''**Group:** '' @ group r,
      inline = False\<rparr>"

definition monitor_embed :: "release list \<Rightarrow> embed" where
  "monitor_embed chunk =
     \<lparr>embed_title = [127381] @ ascii '' New Manga/Manhwa Releases'',
      embed_url = None,
      description = ascii ''Fresh updates from MangaUpdates!'',
      color = lilac,
      fields' = map monitor_field chunk,
      footer = ascii ''MangaUpdates Release Monitor''\<rparr>"

definition post_new_releases :: "release list \<Rightarrow> event list" where
  "post_new_releases new_releases =
     (let chunk_size = 5 in
      map (\<lambda>i. SendEmbed (monitor_embed (slice new_releases i (i + chunk_size))))
        (py_range 0 (length new_releases) chunk_size))"

text \<open>
  One pass of the monitor's \<open>while\<close> loop, up to the hourly sleep. The seen-set is
  touched only between the fetch and \<open>save_seen_releases\<close>, where nothing is awaited.
\<close>

definition monitor_cycle :: "response \<Rightarrow> bot_state \<Rightarrow> event list \<times> bot_state" where
  "monitor_cycle resp s =
     (case fetch_releases_from_page resp s of (releases, ev, s1) \<Rightarrow>
        (case detect (seen_releases s1) [] releases of (seen, new_releases) \<Rightarrow>
           (if new_releases \<noteq> [] then
              (ev @ [SaveSeen seen] @ post_new_releases new_releases,
               s1\<lparr>seen_releases := seen, seen_file := Some seen\<rparr>)
            else (ev, s1\<lparr>seen_releases := seen\<rparr>))))"

section \<open>The commands that read the listing\<close>

definition latest_field :: "release \<Rightarrow> field" where
  "latest_field r =
     (let title_display = title r;
          title_display = (if length title_display > 80
                           then take 77 title_display @ ascii ''...'' else title_display)
      in \<lparr>name = book @ title_display,
          value' = ascii ''**Release:** '' @ chapter' r @ [10] @ ascii ''**Groups:** '' @ group r,
          inline = False\<rparr>)"

definition latest_embed :: "release list \<Rightarrow> nat \<Rightarrow> embed" where
  "latest_embed releases i =
     (let chunk_size = 10;
          total_releases = length releases;
          chunk = slice releases i (i + chunk_size)
      in \<lparr>embed_title = [128218] @ ascii '' MangaUpdates Releases'',
          embed_url = Some (ascii ''https://www.mangaupdates.com/releases.html''),
          description = ascii ''Showing '' @ str_nat (i + 1) @ ascii ''-''
            @ str_nat (min (i + chunk_size) total_releases) @ ascii '' of ''
            @ str_nat total_releases @ ascii '' total releases'',
          color = lilac,
          fields' = map latest_field chunk,
          footer = ascii ''Live data from MangaUpdates''\<rparr>)"

definition latestrelease :: "response \<Rightarrow> bot_state \<Rightarrow> event list \<times> bot_state" where
  "latestrelease resp s =
     (case fetch_releases_from_page resp s of (releases, ev, s1) \<Rightarrow>
        ([SendText ([128269] @ ascii '' Fetching all releases from MangaUpdates...'')]
         @ ev @ [DeleteMessage]
         @ (if releases \<noteq> [] then
              map (\<lambda>i. SendEmbed (latest_embed releases i)) (py_range 0 (length releases) 10)
            else
              [SendText ([128226]
                 @ ascii '' No release data available. Please try again in a moment!'')]),
         s1))"

definition testfetch :: "response \<Rightarrow> bot_state \<Rightarrow> event list \<times> bot_state" where
  "testfetch resp s =
     (case fetch_releases_from_page resp s of (releases, ev, s1) \<Rightarrow>
        ([SendText ([129514] @ ascii '' Testing fetch function...'')] @ ev
         @ (case releases of
              r # rest \<Rightarrow>
                [SendText ([9989] @ ascii '' Successfully fetched '' @ str_nat (length releases)
                   @ ascii '' releases!'' @ [10] @ ascii ''**First release:** '' @ title r
                   @ ascii '' - '' @ chapter' r @ ascii '' by '' @ group r)]
            | [] \<Rightarrow>
                [SendText ([10060]
                   @ ascii '' Fetch returned no results. Check logs for details.'')]),
         s1))"

section \<open>Runs\<close>

text \<open>
  The operations that touch the two stores, each with what its fetch delivered. The
  search and random-pick commands read neither store. A run is any sequence of them
  after start-up.
\<close>

datatype operation =
    MonitorCycle response
  | LatestRelease response
  | TestFetch response

fun step :: "operation \<Rightarrow> bot_state \<Rightarrow> event list \<times> bot_state" where
  "step (MonitorCycle resp) s = monitor_cycle resp s"
| "step (LatestRelease resp) s = latestrelease resp s"
| "step (TestFetch resp) s = testfetch resp s"

fun run :: "operation list \<Rightarrow> bot_state \<Rightarrow> bot_state" where
  "run [] s = s"
| "run (x # xs) s = run xs (snd (step x s))"

section \<open>Notions of the specification\<close>

text \<open>
  A well-formed release row, in the words of the specification: at least three matching
  columns, a non-empty trimmed title and a non-empty trimmed release label.
\<close>

definition well_formed_row :: "node \<Rightarrow> bool" where
  "well_formed_row d = (3 \<le> length (columns d) \<and> row_title d \<noteq> [] \<and> row_release d \<noteq> [])"

text \<open>The title, release label and group a well-formed row stands for.\<close>

definition record_of_row :: "node \<Rightarrow> pystr \<times> pystr \<times> pystr" where
  "record_of_row d =
     (row_title d, row_release d, (if row_group d = [] then ascii ''Unknown'' else row_group d))"

text \<open>What a fetch and parse attempt yields: nothing when the fetch raises.\<close>

definition attempt :: "response \<Rightarrow> release list" where
  "attempt resp = (case resp of FetchError \<Rightarrow> [] | Page soup \<Rightarrow> parse soup)"

fun response_of :: "operation \<Rightarrow> response" where
  "response_of (MonitorCycle resp) = resp"
| "response_of (LatestRelease resp) = resp"
| "response_of (TestFetch resp) = resp"

text \<open>
  The last successfully persisted sequence after a run: the last attempt of the run that
  yielded a record, else what the cache file held at start-up, else nothing.
\<close>

definition successful :: "operation list \<Rightarrow> release list list" where
  "successful ops = filter (\<lambda>rs. rs \<noteq> []) (map (\<lambda>x. attempt (response_of x)) ops)"

definition last_persisted :: "release list option \<Rightarrow> operation list \<Rightarrow> release list" where
  "last_persisted cf ops =
     (if successful ops \<noteq> [] then last (successful ops)
      else (case cf of Some rs \<Rightarrow> rs | None \<Rightarrow> []))"

text \<open>The messages dispatched and the files written among the effects of an operation.\<close>

fun sent_embeds :: "event list \<Rightarrow> embed list" where
  "sent_embeds [] = []"
| "sent_embeds (SendEmbed e # ev) = e # sent_embeds ev"
| "sent_embeds (x # ev) = sent_embeds ev"

fun seen_writes :: "event list \<Rightarrow> pystr fset list" where
  "seen_writes [] = []"
| "seen_writes (SaveSeen ks # ev) = ks # seen_writes ev"
| "seen_writes (x # ev) = seen_writes ev"

fun cache_writes :: "event list \<Rightarrow> release list list" where
  "cache_writes [] = []"
| "cache_writes (SaveCache rs # ev) = rs # cache_writes ev"
| "cache_writes (x # ev) = cache_writes ev"

section \<open>Example inputs\<close>

text \<open>
  A row as the listing has it: a \<open>div\<close> of class \<open>row new-release-item\<close> with a title
  column holding a \<open>span\<close>, a release column and a group column; a row that lost its
  group column; and two small pages.
\<close>

definition example_column :: "string \<Rightarrow> node list \<Rightarrow> node" where
  "example_column c ch = Elem (ascii ''div'') (Some [ascii c]) ch"

definition example_row :: "pystr \<Rightarrow> pystr \<Rightarrow> pystr \<Rightarrow> node" where
  "example_row t r g =
     Elem (ascii ''div'') (Some [ascii ''row'', ascii ''new-release-item''])
       [example_column ''col-6'' [Elem (ascii ''span'') None [Text t]],
        example_column ''col-2'' [Text r],
        example_column ''col-4'' [Text g]]"

definition short_row :: "pystr \<Rightarrow> pystr \<Rightarrow> node" where
  "short_row t r =
     Elem (ascii ''div'') (Some [ascii ''row'', ascii ''new-release-item''])
       [example_column ''col-6'' [Elem (ascii ''span'') None [Text t]],
        example_column ''col-2'' [Text r]]"

definition example_page :: node where
  "example_page =
     Elem (ascii ''[document]'') None
       [example_row [65] [49] [71], short_row [67] [52],
        example_row [66] [50] [32], example_row [32] [51] [72]]"

definition twin_page :: node where
  "twin_page =
     Elem (ascii ''[document]'') None
       [example_row [65] [49] [], example_row [65] [49] (ascii ''Unknown'')]"

definition empty_page :: node where
  "empty_page = Elem (ascii ''[document]'') None []"

text \<open>Records for the notifier: twelve short ones, and one with a title of 300 code points.\<close>

definition example_release :: "nat \<Rightarrow> release" where
  "example_release n =
     \<lparr>title = [65 + n], chapter' = [49], group = [71], key = [65 + n, 124, 49, 124, 71]\<rparr>"

definition twelve_releases :: "release list" where
  "twelve_releases = map example_release [0, 1, 2, 3, 4, 5, 6, 7, 8, 9, 10, 11]"

definition long_release :: release where
  "long_release =
     \<lparr>title = replicate 300 65, chapter' = [49], group = [71],
      key = make_key (replicate 300 65) [49] [71]\<rparr>"

text \<open>A state whose cache holds two releases that have not been seen yet.\<close>

definition example_state :: bot_state where
  "example_state =
     \<lparr>cached_releases = [example_release 0, example_release 2],
      cache_file = Some [example_release 0, example_release 2],
      seen_releases = {||}, seen_file = None\<rparr>"

section \<open>Evaluating the examples\<close>

lemma ascii_literals:
  "ascii ''new-release-item'' = [110,101,119,45,114,101,108,101,97,115,101,45,105,116,101,109]"
  "ascii ''div'' = [100,105,118]"
  "ascii ''col-6'' = [99,111,108,45,54]"
  "ascii ''col-2'' = [99,111,108,45,50]"
  "ascii ''col-4'' = [99,111,108,45,52]"
  "ascii ''span'' = [115,112,97,110]"
  "ascii ''row'' = [114,111,119]"
  "ascii ''Unknown'' = [85,110,107,110,111,119,110]"
  "ascii ''|'' = [124]"
  "ascii ''[document]'' = [91,100,111,99,117,109,101,110,116,93]"
  by (simp_all add: ascii_def)

lemma columns_example_row:
  "columns (example_row t r g) =
     [example_column ''col-6'' [Elem (ascii ''span'') None [Text t]],
      example_column ''col-2'' [Text r], example_column ''col-4'' [Text g]]"
  by (simp add: columns_def example_row_def example_column_def find_all_def class_matches_def
      is_column_def ascii_literals)

lemma columns_short_row: "length (columns (short_row t r)) = 2"
  by (simp add: columns_def short_row_def example_column_def find_all_def class_matches_def
      is_column_def ascii_literals)

lemma parse_row_example_row:
  "parse_row (example_row t r g) =
     (if strip t \<noteq> [] \<and> strip r \<noteq> [] then
        Some \<lparr>title = strip t, chapter' = strip r,
              group = (if strip g \<noteq> [] then strip g else ascii ''Unknown''),
              key = make_key (strip t) (strip r) (strip g)\<rparr>
      else None)"
  by (simp add: parse_row_def columns_example_row row_title_def row_release_def row_group_def
      find_tag_def get_text_def example_column_def ascii_literals Let_def)

lemma parse_row_short_row: "parse_row (short_row t r) = None"
  by (simp add: parse_row_def columns_short_row)

lemma release_divs_rows:
  "release_divs (Elem tg None [example_row t1 r1 g1, short_row t2 r2,
      example_row t3 r3 g3, example_row t4 r4 g4])
   = [example_row t1 r1 g1, short_row t2 r2, example_row t3 r3 g3, example_row t4 r4 g4]"
  by (simp add: release_divs_def find_all_def class_matches_def is_release_item_def
      example_row_def short_row_def example_column_def ascii_literals)

lemma release_divs_twin:
  "release_divs (Elem tg None [example_row t1 r1 g1, example_row t2 r2 g2])
   = [example_row t1 r1 g1, example_row t2 r2 g2]"
  by (simp add: release_divs_def find_all_def class_matches_def is_release_item_def
      example_row_def example_column_def ascii_literals)

lemma strip_examples:
  "strip [] = []" "strip [32] = []" "strip [65] = [65]" "strip [66] = [66]" "strip [49] = [49]"
  "strip [50] = [50]" "strip [51] = [51]" "strip [71] = [71]" "strip [72] = [72]"
  "strip [85, 110, 107, 110, 111, 119, 110] = [85, 110, 107, 110, 111, 119, 110]"
  by (simp_all add: strip_def isspace_def)

lemma parse_example_page:
  "parse example_page =
     [\<lparr>title = [65], chapter' = [49], group = [71], key = [65, 124, 49, 124, 71]\<rparr>,
      \<lparr>title = [66], chapter' = [50], group = ascii ''Unknown'', key = [66, 124, 50, 124]\<rparr>]"
  by (simp add: parse_def example_page_def release_divs_rows parse_row_example_row
      parse_row_short_row strip_examples make_key_def ascii_literals)

lemma parse_twin_page:
  "parse twin_page =
     [\<lparr>title = [65], chapter' = [49], group = ascii ''Unknown'', key = [65, 124, 49, 124]\<rparr>,
      \<lparr>title = [65], chapter' = [49], group = ascii ''Unknown'',
        key = [65, 124, 49, 124] @ ascii ''Unknown''\<rparr>]"
  by (simp add: parse_def twin_page_def release_divs_twin parse_row_example_row
      strip_examples make_key_def ascii_literals)

section \<open>The parser\<close>

lemma parse_loop_acc: "parse_loop acc ds = acc @ List.map_filter parse_row ds"
  by (induction ds arbitrary: acc) (auto split: option.splits)

lemma parse_row_well_formed: "(parse_row d \<noteq> None) = well_formed_row d"
  by (auto simp: parse_row_def well_formed_row_def Let_def)

lemma parse_row_fields:
  "parse_row d = Some r \<Longrightarrow>
     title r = row_title d \<and> chapter' r = row_release d
     \<and> group r = (if row_group d = [] then ascii ''Unknown'' else row_group d)
     \<and> key r = make_key (row_title d) (row_release d) (row_group d)
     \<and> row_title d \<noteq> [] \<and> row_release d \<noteq> []"
  by (auto simp: parse_row_def Let_def split: if_splits)

lemma map_filter_fields:
  "map (\<lambda>r. (title r, chapter' r, group r)) (List.map_filter parse_row ds)
     = map record_of_row (filter well_formed_row ds)"
proof (induction ds)
  case Nil
  then show ?case by simp
next
  case (Cons d ds)
  show ?case
  proof (cases "parse_row d")
    case None
    then have "\<not> well_formed_row d" using parse_row_well_formed [of d] by simp
    with None Cons show ?thesis by simp
  next
    case (Some r)
    then have "well_formed_row d" using parse_row_well_formed [of d] by simp
    with Some Cons parse_row_fields [OF Some] show ?thesis
      by (simp add: record_of_row_def)
  qed
qed

lemma map_filter_nonempty:
  "list_all (\<lambda>r. title r \<noteq> [] \<and> chapter' r \<noteq> []) (List.map_filter parse_row ds)"
proof (induction ds)
  case Nil
  then show ?case by simp
next
  case (Cons d ds)
  then show ?case
    by (cases "parse_row d") (auto dest: parse_row_fields)
qed

lemma parse_map_filter: "parse soup = List.map_filter parse_row (release_divs soup)"
  by (simp add: parse_def parse_loop_acc)

text \<open>
  C1. The parser returns one record for each well-formed row among the release rows of
  the page, in the order of the page, and none for the others: with N well-formed rows
  and M others it returns N records. Every record has a non-empty title and a non-empty
  chapter, and carries the title, release label and group of its row, the group being
  \<open>Unknown\<close> when the row's group text is empty after trimming. The parser is a total
  function: a row that is left out raises nothing.
\<close>

theorem parse_counts_well_formed_rows:
  "length (parse soup) = length (filter well_formed_row (release_divs soup))
   \<and> length (parse soup) + length (filter (\<lambda>d. \<not> well_formed_row d) (release_divs soup))
       = length (release_divs soup)
   \<and> list_all (\<lambda>r. title r \<noteq> [] \<and> chapter' r \<noteq> []) (parse soup)
   \<and> map (\<lambda>r. (title r, chapter' r, group r)) (parse soup)
       = map record_of_row (filter well_formed_row (release_divs soup))"
proof -
  have "length (map (\<lambda>r. (title r, chapter' r, group r)) (parse soup))
        = length (map record_of_row (filter well_formed_row (release_divs soup)))"
    by (simp only: parse_map_filter map_filter_fields)
  then have l: "length (parse soup) = length (filter well_formed_row (release_divs soup))"
    by simp
  have s: "length (filter well_formed_row (release_divs soup))
           + length (filter (\<lambda>d. \<not> well_formed_row d) (release_divs soup))
           = length (release_divs soup)"
    by (rule sum_length_filter_compl)
  show ?thesis using l s by (simp add: parse_map_filter map_filter_nonempty map_filter_fields)
qed

theorem parse_counts_well_formed_rows_witness:
  "length (parse example_page) = 2
   \<and> length (release_divs example_page) = 4
   \<and> length (filter well_formed_row (release_divs example_page)) = 2
   \<and> length (filter (\<lambda>d. \<not> well_formed_row d) (release_divs example_page)) = 2
   \<and> map record_of_row (filter well_formed_row (release_divs example_page))
       = [([65], [49], [71]), ([66], [50], ascii ''Unknown'')]"
proof -
  have n: "length (release_divs example_page) = 4"
    by (simp add: example_page_def release_divs_rows)
  show ?thesis
    using parse_counts_well_formed_rows [of example_page] n
    by (simp add: parse_example_page)
qed

section \<open>The key\<close>

lemma make_key_inject:
  "(make_key t c g = make_key t' c g) = (t = t')"
  "(make_key t c g = make_key t c' g) = (c = c')"
  "(make_key t c g = make_key t c g') = (g = g')"
  by (simp_all add: make_key_def)

lemma map_filter_member:
  "r \<in> set (List.map_filter f xs) \<Longrightarrow> \<exists>x \<in> set xs. f x = Some r"
  by (induction xs) (auto split: option.splits)

lemma parse_member:
  "r \<in> set (parse soup) \<Longrightarrow> \<exists>d \<in> set (release_divs soup). parse_row d = Some r"
  by (simp add: parse_map_filter map_filter_member)

text \<open>
  C2, as the code has it. The key of a parsed record is its title, its chapter and the
  group text of its row joined by \<open>|\<close>, where the group text is the trimmed text of the
  group column: it is empty when the record's group field holds the default \<open>Unknown\<close>. So
  the key is the join of the record's three fields whenever the row's group text is not
  empty. The key is a function of the title, the chapter and the row's group text, and
  changing one of the three while the other two stay changes the key.
\<close>

theorem key_of_parsed_record:
  assumes "r \<in> set (parse soup)"
  shows "(\<exists>d \<in> set (release_divs soup).
            title r = row_title d \<and> chapter' r = row_release d
            \<and> group r = (if row_group d = [] then ascii ''Unknown'' else row_group d)
            \<and> key r = make_key (title r) (chapter' r) (row_group d)
            \<and> (row_group d \<noteq> [] \<longrightarrow> key r = make_key (title r) (chapter' r) (group r)))
         \<and> (\<forall>t c g t'. (make_key t c g = make_key t' c g) = (t = t'))
         \<and> (\<forall>t c g c'. (make_key t c g = make_key t c' g) = (c = c'))
         \<and> (\<forall>t c g g'. (make_key t c g = make_key t c g') = (g = g'))"
proof -
  from assms obtain d where d: "d \<in> set (release_divs soup)" and p: "parse_row d = Some r"
    using parse_member by blast
  from parse_row_fields [OF p] have
    "title r = row_title d \<and> chapter' r = row_release d
     \<and> group r = (if row_group d = [] then ascii ''Unknown'' else row_group d)
     \<and> key r = make_key (title r) (chapter' r) (row_group d)
     \<and> (row_group d \<noteq> [] \<longrightarrow> key r = make_key (title r) (chapter' r) (group r))"
    by simp
  then have "\<exists>d \<in> set (release_divs soup).
            title r = row_title d \<and> chapter' r = row_release d
            \<and> group r = (if row_group d = [] then ascii ''Unknown'' else row_group d)
            \<and> key r = make_key (title r) (chapter' r) (row_group d)
            \<and> (row_group d \<noteq> [] \<longrightarrow> key r = make_key (title r) (chapter' r) (group r))"
    using d by (rule bexI)
  then show ?thesis by (simp add: make_key_inject)
qed

text \<open>
  C2, as the specification states it, fails on a page with two rows of the same title and
  chapter, one with an empty group column and one whose group column reads \<open>Unknown\<close>: the
  first record's key is not the join of its fields, and the two records agree on title,
  chapter and group and differ in their keys.
\<close>

theorem key_not_join_of_fields:
  "parse twin_page =
     [\<lparr>title = [65], chapter' = [49], group = ascii ''Unknown'', key = [65, 124, 49, 124]\<rparr>,
      \<lparr>title = [65], chapter' = [49], group = ascii ''Unknown'',
        key = [65, 124, 49, 124] @ ascii ''Unknown''\<rparr>]
   \<and> key (parse twin_page ! 0) \<noteq>
       make_key (title (parse twin_page ! 0)) (chapter' (parse twin_page ! 0))
         (group (parse twin_page ! 0))
   \<and> title (parse twin_page ! 0) = title (parse twin_page ! 1)
   \<and> chapter' (parse twin_page ! 0) = chapter' (parse twin_page ! 1)
   \<and> group (parse twin_page ! 0) = group (parse twin_page ! 1)
   \<and> key (parse twin_page ! 0) \<noteq> key (parse twin_page ! 1)"
  by (simp add: parse_twin_page make_key_def ascii_literals)

theorem key_of_parsed_record_witness:
  "\<lparr>title = [65], chapter' = [49], group = ascii ''Unknown'', key = [65, 124, 49, 124]\<rparr>
     \<in> set (parse twin_page)
   \<and> (\<exists>d \<in> set (release_divs twin_page). row_group d = []
        \<and> make_key [65] [49] (row_group d) = [65, 124, 49, 124])
   \<and> (make_key [65] [49] [] = make_key [66] [49] []) = ([65] = [66::nat])"
proof -
  let ?r = "\<lparr>title = [65], chapter' = [49], group = ascii ''Unknown'', key = [65, 124, 49, 124]\<rparr>"
  have m: "?r \<in> set (parse twin_page)" by (simp add: parse_twin_page)
  note t = key_of_parsed_record [OF m]
  from t have i: "\<forall>t c g t'. (make_key t c g = make_key t' c g) = (t = t')"
    by (elim conjE)
  from t obtain d where
    d: "d \<in> set (release_divs twin_page)"
    and k: "key ?r = make_key (title ?r) (chapter' ?r) (row_group d)"
    and j: "row_group d \<noteq> [] \<longrightarrow> key ?r = make_key (title ?r) (chapter' ?r) (group ?r)"
    by (elim conjE bexE)
  have "row_group d = []"
  proof (rule ccontr)
    assume n: "row_group d \<noteq> []"
    with j have "key ?r = make_key (title ?r) (chapter' ?r) (group ?r)" by simp
    then show False by (simp add: make_key_def ascii_literals)
  qed
  then have e: "row_group d = [] \<and> make_key [65] [49] (row_group d) = [65, 124, 49, 124]"
    using k by simp
  have x: "\<exists>d \<in> set (release_divs twin_page). row_group d = []
        \<and> make_key [65] [49] (row_group d) = [65, 124, 49, 124]"
    using e d by (rule bexI)
  from i have y: "(make_key [65] [49] [] = make_key [66] [49] []) = ([65] = [66::nat])"
    by (elim allE)
  from m x y show ?thesis by (intro conjI)
qed

section \<open>Fetching and detecting\<close>

lemma fetch_eq:
  "fetch_releases_from_page resp s =
     (if attempt resp \<noteq> [] then
        (attempt resp, [SaveCache (attempt resp)],
         s\<lparr>cached_releases := attempt resp, cache_file := Some (attempt resp)\<rparr>)
      else (cached_releases s, [], s))"
  by (cases resp) (simp_all add: fetch_releases_from_page_def attempt_def Let_def)

lemma fetch_seen:
  "seen_releases (snd (snd (fetch_releases_from_page resp s))) = seen_releases s"
  "seen_file (snd (snd (fetch_releases_from_page resp s))) = seen_file s"
  by (simp_all add: fetch_eq)

lemma fetch_events:
  "sent_embeds (fst (snd (fetch_releases_from_page resp s))) = []"
  "seen_writes (fst (snd (fetch_releases_from_page resp s))) = []"
  by (simp_all add: fetch_eq)

lemma fetch_again:
  "fst (fetch_releases_from_page resp (snd (snd (fetch_releases_from_page resp s))
      \<lparr>seen_releases := a, seen_file := b\<rparr>))
   = fst (fetch_releases_from_page resp s)"
  "fst (fetch_releases_from_page resp (snd (snd (fetch_releases_from_page resp s))
      \<lparr>seen_releases := a\<rparr>))
   = fst (fetch_releases_from_page resp s)"
  by (simp_all add: fetch_eq)

lemma detect_acc:
  "detect seen acc rs = (fst (detect seen [] rs), acc @ snd (detect seen [] rs))"
proof (induction rs arbitrary: seen acc)
  case Nil
  then show ?case by simp
next
  case (Cons r rs)
  show ?case
  proof (cases "key r |\<in>| seen")
    case True
    then show ?thesis using Cons [of seen acc] by simp
  next
    case False
    then show ?thesis
      using Cons [of "finsert (key r) seen" "acc @ [r]"] Cons [of "finsert (key r) seen" "[r]"]
      by simp
  qed
qed

lemma detect_acc_simps:
  "fst (detect seen (a # acc) rs) = fst (detect seen [] rs)"
  "snd (detect seen (a # acc) rs) = a # acc @ snd (detect seen [] rs)"
  using detect_acc [of seen "a # acc" rs] by simp_all

lemma detect_fst: "fst (detect seen [] rs) = seen |\<union>| fset_of_list (map key rs)"
  by (induction rs arbitrary: seen) (auto simp: detect_acc_simps)

lemma detect_fresh: "r \<in> set (snd (detect seen [] rs)) \<Longrightarrow> key r |\<notin>| seen \<and> r \<in> set rs"
proof (induction rs arbitrary: seen)
  case Nil
  then show ?case by simp
next
  case (Cons x rs)
  then show ?case by (fastforce simp: detect_acc_simps split: if_splits)
qed

lemma detect_distinct: "distinct (map key (snd (detect seen [] rs)))"
proof (induction rs arbitrary: seen)
  case Nil
  then show ?case by simp
next
  case (Cons x rs)
  show ?case
  proof (cases "key x |\<in>| seen")
    case True
    then show ?thesis using Cons by (simp add: detect_acc_simps)
  next
    case False
    have "key x \<notin> key ` set (snd (detect (finsert (key x) seen) [] rs))"
    proof
      assume "key x \<in> key ` set (snd (detect (finsert (key x) seen) [] rs))"
      then obtain r where "r \<in> set (snd (detect (finsert (key x) seen) [] rs))"
        and "key r = key x" by auto
      with detect_fresh [of r "finsert (key x) seen" rs] show False by simp
    qed
    then show ?thesis using False Cons by (simp add: detect_acc_simps)
  qed
qed

lemma detect_known:
  "fset_of_list (map key rs) |\<subseteq>| seen \<Longrightarrow> detect seen [] rs = (seen, [])"
  by (induction rs arbitrary: seen) (auto simp: detect_acc_simps prod_eq_iff)

lemma detect_new_keys:
  "fst (detect seen [] rs) = seen |\<union>| fset_of_list (map key (snd (detect seen [] rs)))"
proof (induction rs arbitrary: seen)
  case Nil
  then show ?case by simp
next
  case (Cons x rs)
  then show ?case by (auto simp: detect_acc_simps)
qed

lemma detect_nothing_new:
  "(snd (detect seen [] rs) = []) = (fst (detect seen [] rs) = seen)"
proof
  assume "snd (detect seen [] rs) = []"
  then show "fst (detect seen [] rs) = seen" using detect_new_keys [of seen rs] by simp
next
  assume e: "fst (detect seen [] rs) = seen"
  show "snd (detect seen [] rs) = []"
  proof (rule ccontr)
    assume "snd (detect seen [] rs) \<noteq> []"
    then obtain r where r: "r \<in> set (snd (detect seen [] rs))"
      by (cases "snd (detect seen [] rs)") auto
    then have "key r |\<notin>| seen" using detect_fresh by blast
    moreover have "key r |\<in>| fst (detect seen [] rs)"
      using r by (subst detect_new_keys) (auto simp: fset_of_list_elem)
    ultimately show False using e by simp
  qed
qed

lemma monitor_cycle_eq:
  "monitor_cycle resp s =
     (let f = fetch_releases_from_page resp s;
          d = detect (seen_releases s) [] (fst f)
      in if snd d \<noteq> [] then
           (fst (snd f) @ [SaveSeen (fst d)] @ post_new_releases (snd d),
            (snd (snd f))\<lparr>seen_releases := fst d, seen_file := Some (fst d)\<rparr>)
         else (fst (snd f), (snd (snd f))\<lparr>seen_releases := fst d\<rparr>))"
proof -
  obtain rs ev s1 where f: "fetch_releases_from_page resp s = (rs, ev, s1)"
    by (cases "fetch_releases_from_page resp s") auto
  then have "seen_releases s1 = seen_releases s" using fetch_seen(1) [of resp s] by simp
  then show ?thesis
    by (simp add: monitor_cycle_def f Let_def split: prod.splits)
qed

lemma sent_embeds_append: "sent_embeds (xs @ ys) = sent_embeds xs @ sent_embeds ys"
  by (induction xs rule: sent_embeds.induct) simp_all

lemma seen_writes_append: "seen_writes (xs @ ys) = seen_writes xs @ seen_writes ys"
  by (induction xs rule: seen_writes.induct) simp_all

lemma post_no_seen_writes: "seen_writes (post_new_releases new) = []"
proof -
  have "seen_writes (map (\<lambda>i. SendEmbed (g i)) is) = []" for g :: "nat \<Rightarrow> embed" and "is"
    by (induction "is") simp_all
  then show ?thesis by (simp add: post_new_releases_def Let_def)
qed

lemma monitor_cycle_seen:
  "seen_releases (snd (monitor_cycle resp s))
     = fst (detect (seen_releases s) [] (fst (fetch_releases_from_page resp s)))"
  by (simp add: monitor_cycle_eq Let_def)

text \<open>
  C3. Running the detection step again on the same listing, from the seen-set the first
  run left, finds nothing new. For the whole cycle: a second cycle on the same response,
  from the state the first one left, dispatches no message, writes no seen-set file and
  leaves the seen-set as it is.
\<close>

theorem detection_idempotent:
  "snd (detect (fst (detect seen [] rs)) [] rs) = []
   \<and> sent_embeds (fst (monitor_cycle resp (snd (monitor_cycle resp s)))) = []
   \<and> seen_writes (fst (monitor_cycle resp (snd (monitor_cycle resp s)))) = []
   \<and> seen_releases (snd (monitor_cycle resp (snd (monitor_cycle resp s))))
       = seen_releases (snd (monitor_cycle resp s))"
proof -
  have d: "detect (fst (detect seen [] rs)) [] rs = (fst (detect seen [] rs), [])"
    for seen :: "pystr fset" and rs
    by (rule detect_known) (simp add: detect_fst)
  let ?s1 = "snd (monitor_cycle resp s)"
  let ?rs = "fst (fetch_releases_from_page resp s)"
  have r: "fst (fetch_releases_from_page resp ?s1) = ?rs"
    by (simp add: monitor_cycle_eq Let_def fetch_again)
  have k: "seen_releases ?s1 = fst (detect (seen_releases s) [] ?rs)"
    by (rule monitor_cycle_seen)
  have n: "detect (seen_releases ?s1) [] (fst (fetch_releases_from_page resp ?s1))
           = (seen_releases ?s1, [])"
    unfolding r k by (rule d)
  have c: "monitor_cycle resp ?s1 =
           (fst (snd (fetch_releases_from_page resp ?s1)),
            (snd (snd (fetch_releases_from_page resp ?s1)))\<lparr>seen_releases := seen_releases ?s1\<rparr>)"
    by (subst monitor_cycle_eq) (simp add: Let_def n)
  show ?thesis
    by (simp add: d c fetch_events)
qed

section \<open>The stores over a run\<close>

lemma command_state:
  "snd (latestrelease resp s) = snd (snd (fetch_releases_from_page resp s))"
  "snd (testfetch resp s) = snd (snd (fetch_releases_from_page resp s))"
  by (simp_all add: latestrelease_def testfetch_def split: prod.splits)

lemma step_seen: "seen_releases s |\<subseteq>| seen_releases (snd (step x s))"
  by (cases x) (simp_all add: monitor_cycle_seen detect_fst command_state fetch_seen)

lemma run_append: "run (xs @ ys) s = run ys (run xs s)"
  by (induction xs arbitrary: s) simp_all

lemma run_seen: "seen_releases s |\<subseteq>| seen_releases (run ops s)"
proof (induction ops arbitrary: s)
  case Nil
  then show ?case by simp
next
  case (Cons x ops)
  have "seen_releases s |\<subseteq>| seen_releases (snd (step x s))" by (rule step_seen)
  also have "\<dots> |\<subseteq>| seen_releases (run ops (snd (step x s)))" by (rule Cons)
  finally show ?case by simp
qed

text \<open>
  C5. Across every run of operations the seen-set only gains keys: every key that is in
  it stays in it, at every later point of the run, and its size never decreases. The
  same holds for a single monitor cycle.
\<close>

theorem seen_set_monotone:
  "seen_releases s |\<subseteq>| seen_releases (run ops s)
   \<and> fcard (seen_releases s) \<le> fcard (seen_releases (run ops s))
   \<and> seen_releases (run ops s) |\<subseteq>| seen_releases (run (ops @ later) s)
   \<and> seen_releases s |\<subseteq>| seen_releases (snd (monitor_cycle resp s))"
proof -
  have a: "seen_releases s |\<subseteq>| seen_releases (run ops s)" by (rule run_seen)
  have b: "fcard (seen_releases s) \<le> fcard (seen_releases (run ops s))"
    using a by (rule fcard_mono)
  have c: "seen_releases (run ops s) |\<subseteq>| seen_releases (run (ops @ later) s)"
    by (simp add: run_append run_seen)
  have d: "seen_releases s |\<subseteq>| seen_releases (snd (monitor_cycle resp s))"
    using step_seen [of s "MonitorCycle resp"] by simp
  from a b c d show ?thesis by (intro conjI)
qed

text \<open>
  C9. In a monitor cycle the seen-set file is written exactly once, with the full current
  set, if the cycle added a key to the seen-set, and is neither written nor changed if
  the cycle added none.
\<close>

theorem seen_set_persisted_once:
  "seen_writes (fst (monitor_cycle resp s))
     = (if seen_releases (snd (monitor_cycle resp s)) \<noteq> seen_releases s
        then [seen_releases (snd (monitor_cycle resp s))] else [])
   \<and> seen_file (snd (monitor_cycle resp s))
     = (if seen_releases (snd (monitor_cycle resp s)) \<noteq> seen_releases s
        then Some (seen_releases (snd (monitor_cycle resp s))) else seen_file s)"
proof -
  let ?d = "detect (seen_releases s) [] (fst (fetch_releases_from_page resp s))"
  have n: "(snd ?d = []) = (fst ?d = seen_releases s)" by (rule detect_nothing_new)
  show ?thesis
  proof (cases "snd ?d = []")
    case True
    with n have "fst ?d = seen_releases s" by simp
    with True show ?thesis
      by (simp add: monitor_cycle_eq Let_def fetch_events fetch_seen)
  next
    case False
    with n have "fst ?d \<noteq> seen_releases s" by simp
    with False show ?thesis
      by (simp add: monitor_cycle_eq Let_def fetch_events seen_writes_append
          post_no_seen_writes)
  qed
qed

lemma cache_writes_append: "cache_writes (xs @ ys) = cache_writes xs @ cache_writes ys"
  by (induction xs rule: cache_writes.induct) simp_all

lemma cache_writes_sends: "cache_writes (map (\<lambda>i. SendEmbed (g i)) js) = []"
  by (induction js) simp_all

lemma post_no_cache_writes: "cache_writes (post_new_releases new) = []"
  by (simp add: post_new_releases_def Let_def cache_writes_sends)

lemma step_cache:
  "cached_releases (snd (step x s))
     = (if attempt (response_of x) \<noteq> [] then attempt (response_of x) else cached_releases s)"
  "cache_file (snd (step x s))
     = (if attempt (response_of x) \<noteq> [] then Some (attempt (response_of x)) else cache_file s)"
  by (cases x; simp add: monitor_cycle_eq Let_def command_state fetch_eq)+

lemma step_cache_writes:
  "cache_writes (fst (step x s))
     = (if attempt (response_of x) \<noteq> [] then [attempt (response_of x)] else [])"
proof (cases x)
  case (MonitorCycle resp)
  then show ?thesis
    by (simp add: monitor_cycle_eq Let_def cache_writes_append post_no_cache_writes fetch_eq)
next
  case (LatestRelease resp)
  then show ?thesis
    by (simp add: latestrelease_def fetch_eq cache_writes_append cache_writes_sends)
next
  case (TestFetch resp)
  then show ?thesis
    by (simp add: testfetch_def fetch_eq cache_writes_append split: list.splits)
qed

text \<open>
  C8. The cache, in memory and on file, is overwritten with the full parsed sequence
  exactly when the fetch and parse attempt yields at least one record, by one write;
  when the fetch raises or the parse yields no record, both are left as they were and
  nothing is written. This holds for \<open>fetch_releases_from_page\<close> and so for every
  operation that calls it.
\<close>

theorem cache_write_condition:
  "attempt FetchError = []
   \<and> attempt (Page soup) = parse soup
   \<and> fetch_releases_from_page resp s =
       (if attempt resp \<noteq> [] then
          (attempt resp, [SaveCache (attempt resp)],
           s\<lparr>cached_releases := attempt resp, cache_file := Some (attempt resp)\<rparr>)
        else (cached_releases s, [], s))
   \<and> cache_writes (fst (step x s))
       = (if attempt (response_of x) \<noteq> [] then [attempt (response_of x)] else [])
   \<and> cached_releases (snd (step x s))
       = (if attempt (response_of x) \<noteq> [] then attempt (response_of x) else cached_releases s)
   \<and> cache_file (snd (step x s))
       = (if attempt (response_of x) \<noteq> [] then Some (attempt (response_of x))
          else cache_file s)"
  using fetch_eq [of resp s] step_cache [of x s] step_cache_writes [of x s]
  by (simp add: attempt_def)

lemma successful_Cons:
  "successful (x # xs) =
     (if attempt (response_of x) \<noteq> [] then attempt (response_of x) # successful xs
      else successful xs)"
  by (simp add: successful_def)

lemma run_cache:
  "cached_releases (run ops s)
     = (if successful ops \<noteq> [] then last (successful ops) else cached_releases s)
   \<and> cache_file (run ops s)
     = (if successful ops \<noteq> [] then Some (last (successful ops)) else cache_file s)"
proof (induction ops arbitrary: s)
  case Nil
  then show ?case by (simp add: successful_def)
next
  case (Cons x ops)
  show ?case
    using Cons [of "snd (step x s)"] by (simp add: successful_Cons step_cache)
qed

text \<open>
  C4. On a response whose parse yields no record, or on a fetch that raises,
  \<open>fetch_releases_from_page\<close> returns the last successfully persisted sequence: the last
  non-empty parse of the run so far if there is one, else what the cache file held at
  start-up, else the empty sequence. That is the content of the cache file at that
  point.
\<close>

theorem fallback_law:
  assumes "attempt resp = []"
  shows "fst (fetch_releases_from_page resp (run ops (startup cf sf))) = last_persisted cf ops
         \<and> last_persisted cf ops = load_cached_releases (cache_file (run ops (startup cf sf)))"
  using assms run_cache [of ops "startup cf sf"]
  by (simp add: fetch_eq last_persisted_def startup_def load_cached_releases_def
      split: option.splits)

lemma parse_empty_page: "parse empty_page = []"
  by (simp add: parse_def empty_page_def release_divs_def find_all_def)

theorem fallback_law_witness:
  "attempt (Page empty_page) = []
   \<and> fst (fetch_releases_from_page (Page empty_page)
          (run [MonitorCycle (Page example_page), LatestRelease FetchError]
             (startup None None)))
       = parse example_page
   \<and> attempt FetchError = []
   \<and> fst (fetch_releases_from_page FetchError (run [] (startup None None))) = []"
proof -
  have h1: "attempt (Page empty_page) = []" by (simp add: attempt_def parse_empty_page)
  have h2: "attempt FetchError = []" by (simp add: attempt_def)
  have a: "last_persisted None [MonitorCycle (Page example_page), LatestRelease FetchError]
           = parse example_page"
    by (simp add: last_persisted_def successful_def attempt_def parse_example_page)
  have b: "last_persisted None [] = []"
    by (simp add: last_persisted_def successful_def)
  show ?thesis
    using fallback_law [OF h1, of "[MonitorCycle (Page example_page), LatestRelease FetchError]"
        None None]
      fallback_law [OF h2, of "[]" None None] h1 h2 a b
    by simp
qed

section \<open>The notifier\<close>

lemma py_range_length: "0 < k \<Longrightarrow> length (py_range i n k) = (n - i + k - 1) div k"
proof (induction i n k rule: py_range.induct)
  case (1 i n k)
  show ?case
  proof (cases "i < n")
    case False
    then have "py_range i n k = []" by (simp add: py_range.simps [of i n k])
    moreover from False "1.prems" have "(n - i + k - 1) div k = 0" by simp
    ultimately show ?thesis by simp
  next
    case True
    with "1.prems" have u: "py_range i n k = i # py_range (i + k) n k"
      by (simp add: py_range.simps [of i n k])
    from True "1.prems" have ih: "length (py_range (i + k) n k) = (n - (i + k) + k - 1) div k"
      using "1.IH" by simp
    from True "1.prems" have "k \<le> n - i + k - 1" by simp
    then have "(n - i + k - 1) div k = Suc ((n - i + k - 1 - k) div k)"
      using "1.prems" by (simp add: le_div_geq)
    moreover have "(n - i + k - 1 - k) div k = (n - (i + k) + k - 1) div k"
    proof (cases "i + k \<le> n")
      case True
      then have "n - i + k - 1 - k = n - (i + k) + k - 1" using "1.prems" by simp
      then show ?thesis by simp
    next
      case False
      then have "n - i + k - 1 - k < k" and "n - (i + k) + k - 1 < k"
        using "1.prems" True by simp_all
      then show ?thesis by simp
    qed
    ultimately show ?thesis using u ih by simp
  qed
qed

lemma py_range_nth: "0 < k \<Longrightarrow> j < length (py_range i n k) \<Longrightarrow> py_range i n k ! j = i + j * k"
proof (induction i n k arbitrary: j rule: py_range.induct)
  case (1 i n k)
  show ?case
  proof (cases "i < n")
    case False
    with "1.prems" show ?thesis by (simp add: py_range.simps [of i n k])
  next
    case True
    with "1.prems" have u: "py_range i n k = i # py_range (i + k) n k"
      by (simp add: py_range.simps [of i n k])
    show ?thesis
    proof (cases j)
      case 0
      then show ?thesis using u by simp
    next
      case (Suc j')
      with "1.prems" u have "j' < length (py_range (i + k) n k)" by simp
      with "1.IH" [of j'] True "1.prems" have "py_range (i + k) n k ! j' = i + k + j' * k"
        by simp
      with Suc u show ?thesis by simp
    qed
  qed
qed

lemma py_range_concat:
  "0 < k \<Longrightarrow> concat (map (\<lambda>j. slice xs j (j + k)) (py_range i (length xs) k)) = drop i xs"
proof (induction i "length xs" k rule: py_range.induct)
  case (1 i k)
  show ?case
  proof (cases "i < length xs")
    case False
    then show ?thesis by (simp add: py_range.simps [of i "length xs" k])
  next
    case True
    with "1.prems" have u: "py_range i (length xs) k = i # py_range (i + k) (length xs) k"
      by (simp add: py_range.simps [of i "length xs" k])
    have "concat (map (\<lambda>j. slice xs j (j + k)) (py_range (i + k) (length xs) k))
          = drop (i + k) xs"
      using "1.hyps" True "1.prems" by simp
    then have "concat (map (\<lambda>j. slice xs j (j + k)) (py_range i (length xs) k))
          = take k (drop i xs) @ drop k (drop i xs)"
      by (simp add: u slice_def add.commute)
    then show ?thesis by (simp only: append_take_drop_id)
  qed
qed

lemma sent_embeds_sends: "sent_embeds (map (\<lambda>i. SendEmbed (g i)) js) = map g js"
  by (induction js) simp_all

lemma post_sent:
  "sent_embeds (post_new_releases new)
     = map (\<lambda>i. monitor_embed (slice new i (i + 5))) (py_range 0 (length new) 5)"
  by (simp add: post_new_releases_def Let_def sent_embeds_sends)

lemma post_all_sends:
  "post_new_releases new = map SendEmbed (sent_embeds (post_new_releases new))"
  by (simp add: post_sent) (simp add: post_new_releases_def Let_def)

lemma post_fields:
  "concat (map fields' (sent_embeds (post_new_releases new))) = map monitor_field new"
proof -
  have "concat (map fields' (sent_embeds (post_new_releases new)))
        = concat (map (\<lambda>i. map monitor_field (slice new i (i + 5))) (py_range 0 (length new) 5))"
    by (simp add: post_sent monitor_embed_def comp_def)
  also have "\<dots> = map monitor_field
                 (concat (map (\<lambda>i. slice new i (i + 5)) (py_range 0 (length new) 5)))"
    by (simp add: map_concat comp_def)
  also have "\<dots> = map monitor_field new"
    using py_range_concat [of 5 new 0] by simp
  finally show ?thesis .
qed

text \<open>
  C6. For a non-empty list of K new releases the notifier's effects are exactly
  \<open>ceil(K/5)\<close> messages, written \<open>(K + 4) div 5\<close>. Message \<open>i\<close> has one entry for each
  record at the positions from \<open>5 * i\<close> up to \<open>min (5 * i + 5) K\<close>, that is
  \<open>min 5 (K - 5 * i)\<close> entries, and the entries of all messages in order are the entries
  of the new releases in their order: no record is repeated or left out.
\<close>

theorem batches_of_five:
  assumes "new_releases \<noteq> []"
  shows "length (post_new_releases new_releases) = (length new_releases + 4) div 5
         \<and> post_new_releases new_releases
             = map SendEmbed (sent_embeds (post_new_releases new_releases))
         \<and> (\<forall>i < (length new_releases + 4) div 5.
               fields' (sent_embeds (post_new_releases new_releases) ! i)
                 = map monitor_field
                     (take (min 5 (length new_releases - 5 * i)) (drop (5 * i) new_releases)))
         \<and> concat (map fields' (sent_embeds (post_new_releases new_releases)))
             = map monitor_field new_releases"
proof -
  let ?K = "length new_releases"
  have l: "length (py_range 0 ?K 5) = (?K + 4) div 5"
    using py_range_length [of 5 0 ?K] by simp
  have a: "length (post_new_releases new_releases) = (?K + 4) div 5"
    by (simp add: post_new_releases_def Let_def l)
  have c: "fields' (sent_embeds (post_new_releases new_releases) ! i)
             = map monitor_field (take (min 5 (?K - 5 * i)) (drop (5 * i) new_releases))"
    if i: "i < (?K + 4) div 5" for i
  proof -
    from i l have j: "i < length (py_range 0 ?K 5)" by simp
    then have n: "py_range 0 ?K 5 ! i = 5 * i"
      using py_range_nth [of 5 i 0 ?K] by simp
    have "take 5 (drop (5 * i) new_releases)
          = take (min 5 (?K - 5 * i)) (drop (5 * i) new_releases)"
      by (simp add: min_def)
    then show ?thesis
      using j n by (simp add: post_sent monitor_embed_def slice_def)
  qed
  show ?thesis using a c post_all_sends [of new_releases] post_fields [of new_releases]
    by (intro conjI allI impI) simp_all
qed

theorem batches_of_five_witness:
  "twelve_releases \<noteq> []
   \<and> length (post_new_releases twelve_releases) = 3
   \<and> fields' (sent_embeds (post_new_releases twelve_releases) ! 0)
       = map monitor_field (map example_release [0, 1, 2, 3, 4])
   \<and> fields' (sent_embeds (post_new_releases twelve_releases) ! 1)
       = map monitor_field (map example_release [5, 6, 7, 8, 9])
   \<and> fields' (sent_embeds (post_new_releases twelve_releases) ! 2)
       = map monitor_field (map example_release [10, 11])"
proof -
  have h: "twelve_releases \<noteq> []" by (simp add: twelve_releases_def)
  have k: "length twelve_releases = 12" by (simp add: twelve_releases_def)
  note t = batches_of_five [OF h]
  from t have a: "length (post_new_releases twelve_releases) = 3" by (simp add: k)
  from t have q: "\<forall>i < 3. fields' (sent_embeds (post_new_releases twelve_releases) ! i)
      = map monitor_field (take (min 5 (12 - 5 * i)) (drop (5 * i) twelve_releases))"
    by (simp add: k)
  from q have b0: "fields' (sent_embeds (post_new_releases twelve_releases) ! 0)
      = map monitor_field (take (min 5 (12 - 5 * 0)) (drop (5 * 0) twelve_releases))"
    by (elim allE [where x = 0]) simp
  from q have b1: "fields' (sent_embeds (post_new_releases twelve_releases) ! 1)
      = map monitor_field (take (min 5 (12 - 5 * 1)) (drop (5 * 1) twelve_releases))"
    by (elim allE [where x = 1]) simp
  from q have b2: "fields' (sent_embeds (post_new_releases twelve_releases) ! 2)
      = map monitor_field (take (min 5 (12 - 5 * 2)) (drop (5 * 2) twelve_releases))"
    by (elim allE [where x = 2]) simp
  from h a b0 b1 b2 show ?thesis by (simp add: twelve_releases_def)
qed

lemma distinct_filter_le_one:
  "distinct (map f xs) \<Longrightarrow> length (filter (\<lambda>x. f x = k) xs) \<le> 1"
proof (induction xs)
  case Nil
  then show ?case by simp
next
  case (Cons a xs)
  show ?case
  proof (cases "f a = k")
    case True
    from Cons.prems have "f a \<notin> f ` set xs" by simp
    then have "\<forall>x \<in> set xs. f x \<noteq> f a" by (metis imageI)
    with True have "\<forall>x \<in> set xs. f x \<noteq> k" by simp
    then have "filter (\<lambda>x. f x = k) xs = []" by (simp add: filter_empty_conv)
    with True show ?thesis by simp
  next
    case False
    with Cons show ?thesis by simp
  qed
qed

lemma post_nothing: "post_new_releases [] = []"
  by (simp add: post_new_releases_def Let_def py_range.simps [of 0 0 5])

lemma monitor_cycle_sent:
  "sent_embeds (fst (monitor_cycle resp s))
     = sent_embeds (post_new_releases
         (snd (detect (seen_releases s) [] (fst (fetch_releases_from_page resp s)))))"
proof (cases "snd (detect (seen_releases s) [] (fst (fetch_releases_from_page resp s))) = []")
  case True
  then show ?thesis
    by (simp add: monitor_cycle_eq Let_def fetch_events post_nothing)
next
  case False
  then show ?thesis
    by (simp add: monitor_cycle_eq Let_def fetch_events sent_embeds_append)
qed

text \<open>
  C10. Within one detection step no two records appended to \<open>new_releases\<close> have the
  same key, whatever the listing repeats: each key occurs at most once among them. The
  entries rendered in the messages of the cycle are the entries of these records, one
  for each.
\<close>

theorem one_entry_per_key:
  "distinct (map key (snd (detect seen [] releases)))
   \<and> (\<forall>k. length (filter (\<lambda>r. key r = k) (snd (detect seen [] releases))) \<le> 1)
   \<and> concat (map fields' (sent_embeds (fst (monitor_cycle resp s))))
       = map monitor_field
           (snd (detect (seen_releases s) [] (fst (fetch_releases_from_page resp s))))"
proof -
  have d: "distinct (map key (snd (detect seen [] releases)))" by (rule detect_distinct)
  have "length (filter (\<lambda>r. key r = k) (snd (detect seen [] releases))) \<le> 1" for k
    using d by (rule distinct_filter_le_one)
  then show ?thesis using d by (simp add: monitor_cycle_sent post_fields)
qed

theorem one_entry_per_key_witness:
  "snd (detect {||} [] [example_release 0, example_release 0, example_release 1])
     = [example_release 0, example_release 1]
   \<and> distinct (map key [example_release 0, example_release 1])
   \<and> length (filter (\<lambda>r. key r = key (example_release 0))
         [example_release 0, example_release 1]) \<le> 1"
proof -
  have e: "snd (detect {||} [] [example_release 0, example_release 0, example_release 1])
           = [example_release 0, example_release 1]"
    by (simp add: example_release_def)
  show ?thesis
    using one_entry_per_key [of "{||}" "[example_release 0, example_release 0, example_release 1]"]
    unfolding e by (simp add: example_release_def)
qed

lemma latest_field_bounded:
  "length (name (latest_field r)) \<le> 82
   \<and> name (latest_field r)
       = book @ (if length (title r) > 80 then take 77 (title r) @ ascii ''...'' else title r)"
  by (simp add: latest_field_def Let_def book_def ascii_def)

lemma field_bodies:
  "value' (monitor_field r)
     = ascii ''**Release:** '' @ chapter' r @ [10] @ ascii ''**Group:** '' @ group r"
  "value' (latest_field r)
     = ascii ''**Release:** '' @ chapter' r @ [10] @ ascii ''**Groups:** '' @ group r"
  by (simp_all add: monitor_field_def latest_field_def Let_def)

text \<open>
  C7. On the full-listing path the entry name is bounded: a title of more than 80 code
  points is cut to its first 77 and an ellipsis (\<open>latest_field_bounded\<close>), and on both
  paths the body holds the release label and the group (\<open>field_bodies\<close>). The monitor
  path does not bound the name: for a title of 300 code points the monitor's entry name
  is the whole title after the emoji, 302 code points, where the full-listing path
  renders 82.
\<close>

theorem monitor_title_not_truncated:
  "name (monitor_field long_release) = book @ replicate 300 65
   \<and> length (name (monitor_field long_release)) = 302
   \<and> name (latest_field long_release) = book @ replicate 77 65 @ ascii ''...''
   \<and> length (name (latest_field long_release)) = 82"
  by (simp add: monitor_field_def latest_field_def long_release_def book_def ascii_def Let_def)

section \<open>A concrete run\<close>

text \<open>
  The fetch fails, the cache holds two releases and the seen-set is empty: the first
  cycle reports both and writes the seen-set, the second reports nothing.
\<close>

lemma key_example_release: "key (example_release n) = [65 + n, 124, 49, 124, 71]"
  by (simp add: example_release_def)

lemma detect_example:
  "detect {||} [] [example_release 0, example_release 2]
     = ({|[67, 124, 49, 124, 71], [65, 124, 49, 124, 71]|},
        [example_release 0, example_release 2])"
  by (simp add: key_example_release)

lemma fetch_example:
  "fetch_releases_from_page FetchError example_state
     = ([example_release 0, example_release 2], [], example_state)"
  by (simp add: fetch_eq attempt_def example_state_def)

lemma monitor_cycle_example:
  "snd (monitor_cycle FetchError example_state)
     = example_state\<lparr>seen_releases := {|[67, 124, 49, 124, 71], [65, 124, 49, 124, 71]|},
         seen_file := Some {|[67, 124, 49, 124, 71], [65, 124, 49, 124, 71]|}\<rparr>"
proof -
  have "seen_releases example_state = {||}" by (simp add: example_state_def)
  then show ?thesis
    by (simp add: monitor_cycle_eq Let_def fetch_example key_example_release)
qed

theorem detection_idempotent_witness:
  "snd (detect {||} [] [example_release 0, example_release 2])
     = [example_release 0, example_release 2]
   \<and> snd (detect (fst (detect {||} [] [example_release 0, example_release 2])) []
          [example_release 0, example_release 2]) = []
   \<and> sent_embeds (fst (monitor_cycle FetchError (snd (monitor_cycle FetchError example_state))))
       = []"
proof -
  note t = detection_idempotent [where seen = "{||}"
      and rs = "[example_release 0, example_release 2]" and resp = FetchError
      and s = example_state]
  have a: "snd (detect {||} [] [example_release 0, example_release 2])
           = [example_release 0, example_release 2]"
    by (simp only: detect_example snd_conv)
  from t a show ?thesis by (intro conjI) (elim conjE, assumption)+
qed

theorem seen_set_monotone_witness:
  "seen_releases example_state = {||}
   \<and> seen_releases (run [MonitorCycle FetchError] example_state)
       = {|[67, 124, 49, 124, 71], [65, 124, 49, 124, 71]|}
   \<and> seen_releases (run [MonitorCycle FetchError] example_state)
       |\<subseteq>| seen_releases (run ([MonitorCycle FetchError] @ [LatestRelease FetchError])
             example_state)
   \<and> fcard (seen_releases example_state)
       \<le> fcard (seen_releases (run [MonitorCycle FetchError] example_state))"
proof -
  note t = seen_set_monotone [where s = example_state and ops = "[MonitorCycle FetchError]"
      and later = "[LatestRelease FetchError]" and resp = FetchError]
  have a: "seen_releases example_state = {||}" by (simp add: example_state_def)
  have b: "seen_releases (run [MonitorCycle FetchError] example_state)
           = {|[67, 124, 49, 124, 71], [65, 124, 49, 124, 71]|}"
    by (simp add: monitor_cycle_example)
  from t have c: "seen_releases (run [MonitorCycle FetchError] example_state)
       |\<subseteq>| seen_releases (run ([MonitorCycle FetchError] @ [LatestRelease FetchError])
             example_state)"
    by (elim conjE)
  from t have d: "fcard (seen_releases example_state)
       \<le> fcard (seen_releases (run [MonitorCycle FetchError] example_state))"
    by (elim conjE)
  from a b c d show ?thesis by (intro conjI)
qed

theorem seen_set_persisted_once_witness:
  "seen_writes (fst (monitor_cycle FetchError example_state))
     = [{|[67, 124, 49, 124, 71], [65, 124, 49, 124, 71]|}]
   \<and> seen_file (snd (monitor_cycle FetchError example_state))
     = Some {|[67, 124, 49, 124, 71], [65, 124, 49, 124, 71]|}
   \<and> seen_file example_state = None"
proof -
  have n: "seen_releases (snd (monitor_cycle FetchError example_state))
           \<noteq> seen_releases example_state"
    by (simp add: monitor_cycle_example) (simp add: example_state_def)
  have a: "seen_writes (fst (monitor_cycle FetchError example_state))
           = [{|[67, 124, 49, 124, 71], [65, 124, 49, 124, 71]|}]
         \<and> seen_file (snd (monitor_cycle FetchError example_state))
           = Some {|[67, 124, 49, 124, 71], [65, 124, 49, 124, 71]|}"
    using seen_set_persisted_once [of FetchError example_state] n
    by (simp add: monitor_cycle_example)
  have b: "seen_file example_state = None" by (simp add: example_state_def)
  from a b show ?thesis by simp
qed

theorem cache_write_condition_witness:
  "attempt (Page example_page) \<noteq> []
   \<and> cache_file (snd (step (TestFetch (Page example_page)) (startup None None)))
       = Some (parse example_page)
   \<and> cache_writes (fst (step (TestFetch (Page example_page)) (startup None None)))
       = [parse example_page]
   \<and> attempt FetchError = []
   \<and> fetch_releases_from_page FetchError example_state
       = ([example_release 0, example_release 2], [], example_state)"
proof -
  note t = cache_write_condition [where soup = example_page and resp = FetchError
      and s = example_state and x = "TestFetch FetchError"]
  note u = cache_write_condition [where soup = example_page and resp = FetchError
      and s = "startup None None" and x = "TestFetch (Page example_page)"]
  have a: "attempt (Page example_page) \<noteq> []"
    by (simp add: attempt_def parse_example_page)
  have b: "attempt FetchError = []" by (simp add: attempt_def)
  have c: "cached_releases example_state = [example_release 0, example_release 2]"
    by (simp add: example_state_def)
  from t b c have d: "fetch_releases_from_page FetchError example_state
       = ([example_release 0, example_release 2], [], example_state)"
    by simp
  from u a have e: "cache_file (snd (step (TestFetch (Page example_page)) (startup None None)))
       = Some (parse example_page)
     \<and> cache_writes (fst (step (TestFetch (Page example_page)) (startup None None)))
       = [parse example_page]"
    by (simp add: attempt_def)
  from a b d e show ?thesis by (intro conjI) simp_all
qed

end
